theory Spec2Isabelle
  imports Complex_Main "HOL-Library.Word"
begin

section \<open>Array entries\<close>

text \<open>
  The notebooks compute with NumPy arrays of dtype float64 (and, in the first cells of
  part 2, int64).  An entry of a float array is modelled as an exact real number or one of
  the three special values of IEEE arithmetic.  Arithmetic on \<open>Num\<close> is exact: rounding is
  not modelled, and the two signed zeros are one value (a zero divisor counts as \<open>+0\<close>).
  The special values follow IEEE 754: \<open>NaN\<close> is absorbing, \<open>inf - inf\<close>, \<open>0 * inf\<close>,
  \<open>0 / 0\<close> and \<open>inf / inf\<close> are \<open>NaN\<close>, and a non-zero number divided by zero is an
  infinity (NumPy warns and does not raise).
\<close>

datatype exact_float = NaN | PosInf | NegInf | Num (num: real)

instantiation exact_float :: "{zero, one, plus, uminus, minus, times, inverse}"
begin

definition zero_exact_float :: exact_float where
  "zero_exact_float = Num 0"

definition one_exact_float :: exact_float where
  "one_exact_float = Num 1"

fun plus_exact_float :: "exact_float \<Rightarrow> exact_float \<Rightarrow> exact_float" where
  "plus_exact_float NaN _ = NaN"
| "plus_exact_float _ NaN = NaN"
| "plus_exact_float PosInf NegInf = NaN"
| "plus_exact_float NegInf PosInf = NaN"
| "plus_exact_float PosInf _ = PosInf"
| "plus_exact_float _ PosInf = PosInf"
| "plus_exact_float NegInf _ = NegInf"
| "plus_exact_float _ NegInf = NegInf"
| "plus_exact_float (Num a) (Num b) = Num (a + b)"

fun uminus_exact_float :: "exact_float \<Rightarrow> exact_float" where
  "uminus_exact_float NaN = NaN"
| "uminus_exact_float PosInf = NegInf"
| "uminus_exact_float NegInf = PosInf"
| "uminus_exact_float (Num a) = Num (- a)"

definition minus_exact_float :: "exact_float \<Rightarrow> exact_float \<Rightarrow> exact_float" where
  "minus_exact_float a b = a + (- b)"

fun times_exact_float :: "exact_float \<Rightarrow> exact_float \<Rightarrow> exact_float" where
  "times_exact_float NaN _ = NaN"
| "times_exact_float _ NaN = NaN"
| "times_exact_float (Num a) (Num b) = Num (a * b)"
| "times_exact_float (Num a) PosInf = (if a = 0 then NaN else if 0 < a then PosInf else NegInf)"
| "times_exact_float (Num a) NegInf = (if a = 0 then NaN else if 0 < a then NegInf else PosInf)"
| "times_exact_float PosInf (Num b) = (if b = 0 then NaN else if 0 < b then PosInf else NegInf)"
| "times_exact_float NegInf (Num b) = (if b = 0 then NaN else if 0 < b then NegInf else PosInf)"
| "times_exact_float PosInf PosInf = PosInf"
| "times_exact_float NegInf NegInf = PosInf"
| "times_exact_float PosInf NegInf = NegInf"
| "times_exact_float NegInf PosInf = NegInf"

fun divide_exact_float :: "exact_float \<Rightarrow> exact_float \<Rightarrow> exact_float" where
  "divide_exact_float NaN _ = NaN"
| "divide_exact_float _ NaN = NaN"
| "divide_exact_float (Num a) (Num b) =
     (if b = 0 then (if a = 0 then NaN else if 0 < a then PosInf else NegInf)
      else Num (a / b))"
| "divide_exact_float (Num a) _ = Num 0"
| "divide_exact_float PosInf (Num b) = (if 0 \<le> b then PosInf else NegInf)"
| "divide_exact_float NegInf (Num b) = (if 0 \<le> b then NegInf else PosInf)"
| "divide_exact_float _ _ = NaN"

fun inverse_exact_float :: "exact_float \<Rightarrow> exact_float" where
  "inverse_exact_float NaN = NaN"
| "inverse_exact_float (Num b) = (if b = 0 then PosInf else Num (1 / b))"
| "inverse_exact_float _ = Num 0"

instance ..

end

text \<open>
  Addition and multiplication of entries are associative and commutative also on the
  special values, so sums of entries do not depend on the order of summation.
\<close>

lemma add_special_assoc: "(u + v) + w = u + (v + w)" for u v w :: exact_float
  by (cases u; cases v; cases w) simp_all

lemma add_special_commute: "u + v = v + u" for u v :: exact_float
  by (cases u; cases v) simp_all

lemma add_special_zero: "0 + u = u" for u :: exact_float
  by (cases u) (simp_all add: zero_exact_float_def)

lemma mult_special_assoc: "(u * v) * w = u * (v * w)" for u v w :: exact_float
  by (cases u; cases v; cases w)
     (auto simp: zero_less_mult_iff not_less mult_less_0_iff dest: less_imp_neq)

lemma mult_special_commute: "u * v = v * u" for u v :: exact_float
  by (cases u; cases v) (simp_all add: mult.commute)

lemma mult_special_one: "1 * u = u" for u :: exact_float
  by (cases u) (simp_all add: one_exact_float_def)

instance exact_float :: comm_monoid_add
  by standard (rule add_special_assoc add_special_commute add_special_zero)+

instance exact_float :: comm_monoid_mult
  by standard (rule mult_special_assoc mult_special_commute mult_special_one)+

text \<open>\<open>np.sqrt\<close>: the square root of a negative number is \<open>NaN\<close>.\<close>

fun np_sqrt :: "exact_float \<Rightarrow> exact_float" where
  "np_sqrt NaN = NaN"
| "np_sqrt PosInf = PosInf"
| "np_sqrt NegInf = NaN"
| "np_sqrt (Num a) = (if a < 0 then NaN else Num (sqrt a))"

text \<open>\<open>np.isnan\<close> and \<open>np.isfinite\<close> on one entry.\<close>

definition isnan :: "exact_float \<Rightarrow> bool" where
  "isnan v \<longleftrightarrow> v = NaN"

fun isfinite :: "exact_float \<Rightarrow> bool" where
  "isfinite (Num a) = True"
| "isfinite _ = False"

section \<open>Arrays\<close>

datatype error = ValueError | ZeroDivisionError | IndexError

text \<open>
  A two-dimensional array is its shape and its rows.  The shape is kept beside the rows
  because an array with no rows still has a number of columns (\<open>A.T\<close> of a \<open>1 x 0\<close>
  array has shape \<open>(0, 1)\<close>).  One-dimensional arrays are lists.
\<close>

record 'a array2 =
  shape0 :: nat
  shape1 :: nat
  rows :: "'a list list"

definition well_shaped :: "'a array2 \<Rightarrow> bool" where
  "well_shaped A \<longleftrightarrow> length (rows A) = shape0 A \<and> list_all (\<lambda>r. length r = shape1 A) (rows A)"

definition all_finite :: "exact_float array2 \<Rightarrow> bool" where
  "all_finite A \<longleftrightarrow> list_all (list_all isfinite) (rows A)"

text \<open>The array of shape \<open>(n, p)\<close> whose entry \<open>(i, j)\<close> is \<open>f i j\<close>.\<close>

definition mk :: "nat \<Rightarrow> nat \<Rightarrow> (nat \<Rightarrow> nat \<Rightarrow> 'a) \<Rightarrow> 'a array2" where
  "mk n p f = \<lparr>shape0 = n, shape1 = p, rows = map (\<lambda>i. map (\<lambda>j. f i j) [0..<p]) [0..<n]\<rparr>"

text \<open>\<open>A[i, j]\<close> for indices inside the shape.\<close>

definition entry :: "'a array2 \<Rightarrow> nat \<Rightarrow> nat \<Rightarrow> 'a" where
  "entry A i j = rows A ! i ! j"

definition col :: "'a array2 \<Rightarrow> nat \<Rightarrow> 'a list" where
  "col A j = map (\<lambda>i. entry A i j) [0..<shape0 A]"

definition row :: "'a array2 \<Rightarrow> nat \<Rightarrow> 'a list" where
  "row A i = map (\<lambda>j. entry A i j) [0..<shape1 A]"

text \<open>\<open>A.T\<close>\<close>

definition T :: "'a array2 \<Rightarrow> 'a array2" where
  "T A = mk (shape1 A) (shape0 A) (\<lambda>i j. entry A j i)"

text \<open>\<open>A.ravel()\<close>: the entries in row-major order; \<open>np.size(A)\<close>: their number.\<close>

definition ravel :: "'a array2 \<Rightarrow> 'a list" where
  "ravel A = concat (rows A)"

definition np_size :: "'a array2 \<Rightarrow> nat" where
  "np_size A = shape0 A * shape1 A"

text \<open>An operation applied to every entry (a ufunc with a scalar operand).\<close>

definition map_array :: "('a \<Rightarrow> 'b) \<Rightarrow> 'a array2 \<Rightarrow> 'b array2" where
  "map_array f A = \<lparr>shape0 = shape0 A, shape1 = shape1 A, rows = map (map f) (rows A)\<rparr>"

text \<open>
  \<open>np.dot(A, B)\<close> and \<open>A @ B\<close> on two-dimensional arrays: the matrix product, a
  \<open>ValueError\<close> when the inner dimensions differ.  It is written for any entry type with
  an addition and a multiplication, so that it covers float arrays and int64 arrays
  (entries of type \<open>64 word\<close>, where sums and products wrap around as NumPy's do).
\<close>

definition np_dot :: "'a::{comm_monoid_add,times} array2 \<Rightarrow> 'a array2 \<Rightarrow> error + 'a array2" where
  "np_dot A B =
     (if shape1 A = shape0 B
      then Inr (mk (shape0 A) (shape1 B)
                  (\<lambda>i j. sum_list (map (\<lambda>k. entry A i k * entry B k j) [0..<shape1 A])))
      else Inl ValueError)"

text \<open>\<open>np.diagonal(A)\<close> and \<open>np.trace(A)\<close>\<close>

definition np_diagonal :: "'a array2 \<Rightarrow> 'a list" where
  "np_diagonal A = map (\<lambda>i. entry A i i) [0..<min (shape0 A) (shape1 A)]"

definition np_trace :: "'a::comm_monoid_add array2 \<Rightarrow> 'a" where
  "np_trace A = sum_list (np_diagonal A)"

text \<open>
  An array of any of the three ranks the notebooks meet, and \<open>A.squeeze()\<close>, which drops
  the axes of length one.
\<close>

datatype 'a ndarray = Arr0 'a | Arr1 "'a list" | Arr2 "'a array2"

definition squeeze :: "'a array2 \<Rightarrow> 'a ndarray" where
  "squeeze A =
     (if shape0 A = 1 \<and> shape1 A = 1 then Arr0 (entry A 0 0)
      else if shape0 A = 1 then Arr1 (row A 0)
      else if shape1 A = 1 then Arr1 (col A 0)
      else Arr2 A)"

section \<open>The library's statistics\<close>

text \<open>
  \<open>np.mean\<close> of a one-dimensional array: the sum divided by the number of entries
  (\<open>0 / 0 = NaN\<close> for the empty array).
\<close>

definition mean1 :: "exact_float list \<Rightarrow> exact_float" where
  "mean1 xs = sum_list xs / Num (real (length xs))"

text \<open>
  \<open>np.var(x, ddof)\<close> of a one-dimensional array: the squared deviations from the mean
  are summed and divided by \<open>max (n - ddof) 0\<close>; \<open>np.std\<close> is its square root.
\<close>

definition var1 :: "nat \<Rightarrow> exact_float list \<Rightarrow> exact_float" where
  "var1 ddof xs =
     (let arrmean = mean1 xs
      in sum_list (map (\<lambda>v. (v - arrmean) * (v - arrmean)) xs) / Num (real (length xs - ddof)))"

definition std1 :: "nat \<Rightarrow> exact_float list \<Rightarrow> exact_float" where
  "std1 ddof xs = np_sqrt (var1 ddof xs)"

text \<open>Without an axis the array is flattened: \<open>np.mean(x)\<close>, \<open>x.mean()\<close>, \<open>np.var(x, ddof=d)\<close>.\<close>

definition np_mean :: "exact_float array2 \<Rightarrow> exact_float" where
  "np_mean x = mean1 (ravel x)"

definition np_var :: "exact_float array2 \<Rightarrow> nat \<Rightarrow> exact_float" where
  "np_var x ddof = var1 ddof (ravel x)"

definition np_std :: "exact_float array2 \<Rightarrow> nat \<Rightarrow> exact_float" where
  "np_std x ddof = std1 ddof (ravel x)"

text \<open>With \<open>axis=0\<close> the statistic is taken down each column, with \<open>axis=1\<close> along each row.\<close>

definition mean_axis0 :: "exact_float array2 \<Rightarrow> exact_float list" where
  "mean_axis0 A = map (\<lambda>j. mean1 (col A j)) [0..<shape1 A]"

definition mean_axis1 :: "exact_float array2 \<Rightarrow> exact_float list" where
  "mean_axis1 A = map (\<lambda>i. mean1 (row A i)) [0..<shape0 A]"

definition var_axis0 :: "exact_float array2 \<Rightarrow> nat \<Rightarrow> exact_float list" where
  "var_axis0 A ddof = map (\<lambda>j. var1 ddof (col A j)) [0..<shape1 A]"

definition std_axis0 :: "exact_float array2 \<Rightarrow> nat \<Rightarrow> exact_float list" where
  "std_axis0 A ddof = map (\<lambda>j. std1 ddof (col A j)) [0..<shape1 A]"

text \<open>
  \<open>np.isnan(y)\<close>, \<open>~mask\<close> and \<open>y[mask]\<close>: indexing with a Boolean mask of the array's
  shape gives the one-dimensional array of the selected entries in row-major order, and an
  \<open>IndexError\<close> when the shapes differ.
\<close>

definition np_isnan :: "exact_float array2 \<Rightarrow> bool array2" where
  "np_isnan y = map_array isnan y"

definition invert :: "bool array2 \<Rightarrow> bool array2" where
  "invert m = map_array Not m"

definition getitem_mask :: "'a array2 \<Rightarrow> bool array2 \<Rightarrow> error + 'a list" where
  "getitem_mask y m =
     (if shape0 m = shape0 y \<and> shape1 m = shape1 y
      then Inr (map fst (filter snd (zip (ravel y) (ravel m))))
      else Inl IndexError)"

text \<open>
  \<open>np.nanmean(y)\<close>: the NaNs are replaced by zero, the array is summed, and the sum is
  divided by the number of entries that are not NaN.
\<close>

definition np_nanmean :: "exact_float array2 \<Rightarrow> exact_float" where
  "np_nanmean y =
     (let arr = map (\<lambda>v. if isnan v then 0 else v) (ravel y);
          cnt = length (filter (\<lambda>v. \<not> isnan v) (ravel y))
      in sum_list arr / Num (real cnt))"

text \<open>
  \<open>np.cov(m, ddof=d)\<close> on a two-dimensional array, each row a variable and each column an
  observation: an array with no rows gives the empty \<open>0 x 0\<close> array; otherwise the row
  averages are subtracted, the result is multiplied with its transpose and scaled by
  \<open>1 / fact\<close>, where \<open>fact\<close> is the number of observations less \<open>ddof\<close>, replaced by
  \<open>0.0\<close> when it is not positive.  The result is squeezed, so that one variable gives a
  zero-dimensional array.
\<close>

definition np_cov :: "exact_float array2 \<Rightarrow> nat \<Rightarrow> error + exact_float ndarray" where
  "np_cov m ddof =
     (if shape0 m = 0 then Inr (Arr2 (mk 0 0 (\<lambda>i j. 0)))
      else
        let avg = mean_axis1 m;
            fact = (if int (shape1 m) - int ddof \<le> 0 then 0 else real (shape1 m - ddof));
            X = mk (shape0 m) (shape1 m) (\<lambda>i j. entry m i j - avg ! i)
        in case np_dot X (T X) of
             Inl e \<Rightarrow> Inl e
           | Inr c \<Rightarrow> Inr (squeeze (map_array (\<lambda>v. v * (Num 1 / Num fact)) c)))"

section \<open>The notebooks' computations\<close>

text \<open>
  Part 1, variance by matrix operations:
  \<^verbatim>\<open>xi = x - np.mean(x)\<close> and \<^verbatim>\<open>x_var = np.dot(xi,xi.T)/(np.size(x)-1)\<close>.
\<close>

definition xi :: "exact_float array2 \<Rightarrow> exact_float array2" where
  "xi x = map_array (\<lambda>v. v - np_mean x) x"

definition x_var :: "exact_float array2 \<Rightarrow> error + exact_float array2" where
  "x_var x =
     (case np_dot (xi x) (T (xi x)) of
        Inl e \<Rightarrow> Inl e
      | Inr d \<Rightarrow> Inr (map_array (\<lambda>v. v / Num (real_of_int (int (np_size x) - 1))) d))"

text \<open>
  Part 1, the two routes around a missing value:
  \<^verbatim>\<open>valid = ~np.isnan(y)\<close> and \<^verbatim>\<open>np.mean(y[valid])\<close>.
\<close>

definition valid :: "exact_float array2 \<Rightarrow> bool array2" where
  "valid y = invert (np_isnan y)"

definition mean_valid :: "exact_float array2 \<Rightarrow> error + exact_float" where
  "mean_valid y = (case getitem_mask y (valid y) of Inl e \<Rightarrow> Inl e | Inr ys \<Rightarrow> Inr (mean1 ys))"

text \<open>
  Part 2, the outer and the inner product of a row vector:
  \<^verbatim>\<open>B = np.dot(A.T,A)\<close> and \<^verbatim>\<open>np.dot(A,A.T)\<close>.
\<close>

definition B :: "'a::{comm_monoid_add,times} array2 \<Rightarrow> error + 'a array2" where
  "B A = np_dot (T A) A"

definition inner :: "'a::{comm_monoid_add,times} array2 \<Rightarrow> error + 'a array2" where
  "inner A = np_dot A (T A)"

text \<open>
  Part 2, the covariance matrix by matrix operations:
  \<^verbatim>\<open>A0 = A - A.mean(axis=0)\<close> (the vector of column means is broadcast over the rows) and
  \<^verbatim>\<open>1/(A0.shape[0]-1) * (A0.T @ A0)\<close>.  The quotient is taken between Python numbers
  first, and raises \<open>ZeroDivisionError\<close> for an array of one row.
\<close>

definition A0 :: "exact_float array2 \<Rightarrow> exact_float array2" where
  "A0 A = mk (shape0 A) (shape1 A) (\<lambda>i j. entry A i j - mean_axis0 A ! j)"

definition scaled_gram :: "exact_float array2 \<Rightarrow> error + exact_float array2" where
  "scaled_gram M =
     (if int (shape0 M) - 1 = 0 then Inl ZeroDivisionError
      else case np_dot (T M) M of
             Inl e \<Rightarrow> Inl e
           | Inr G \<Rightarrow> Inr (map_array (\<lambda>v. Num (1 / real_of_int (int (shape0 M) - 1)) * v) G))"

definition cov_matmul :: "exact_float array2 \<Rightarrow> error + exact_float array2" where
  "cov_matmul A = scaled_gram (A0 A)"

text \<open>
  Part 2, the library's covariance matrix of the columns, with and without centring first:
  \<^verbatim>\<open>np.cov(A0.T,ddof=1)\<close> and \<^verbatim>\<open>C = np.cov(A.T,ddof=1)\<close>.
\<close>

definition cov_centered :: "exact_float array2 \<Rightarrow> error + exact_float ndarray" where
  "cov_centered A = np_cov (T (A0 A)) 1"

definition C :: "exact_float array2 \<Rightarrow> error + exact_float ndarray" where
  "C A = np_cov (T A) 1"

text \<open>
  Part 2, the correlation matrix:
  \<^verbatim>\<open>Z = (A - A.mean(axis=0)) / np.std(A,axis=0,ddof=1)\<close> and
  \<^verbatim>\<open>R = 1/(Z.shape[0]-1) * (Z.T @ Z)\<close>.
\<close>

definition Z :: "exact_float array2 \<Rightarrow> exact_float array2" where
  "Z A = mk (shape0 A) (shape1 A)
            (\<lambda>i j. (entry A i j - mean_axis0 A ! j) / std_axis0 A 1 ! j)"

definition R :: "exact_float array2 \<Rightarrow> error + exact_float array2" where
  "R A = scaled_gram (Z A)"

section \<open>Rank\<close>

text \<open>
  Part 2 reduces the example matrix with \<^verbatim>\<open>sympy.Matrix(A).T.rref()\<close>, which works in
  exact arithmetic and returns the reduced row echelon form together with the pivot
  columns.  \<open>sympy_Matrix\<close> takes the numbers out of a float array (it is meant for arrays
  whose entries are all finite).
\<close>

definition sympy_Matrix :: "exact_float array2 \<Rightarrow> real array2" where
  "sympy_Matrix A = map_array num A"

definition swap_rows :: "nat \<Rightarrow> nat \<Rightarrow> 'a array2 \<Rightarrow> 'a array2" where
  "swap_rows k i M =
     mk (shape0 M) (shape1 M) (\<lambda>r j. entry M (if r = k then i else if r = i then k else r) j)"

text \<open>
  The pivot row is divided by the pivot, and the pivot's column is cleared in every other
  row, above and below.
\<close>

definition eliminate :: "nat \<Rightarrow> nat \<Rightarrow> real array2 \<Rightarrow> real array2" where
  "eliminate k c M =
     mk (shape0 M) (shape1 M)
        (\<lambda>r j. if r = k then entry M k j / entry M k c
               else entry M r j - entry M r c * (entry M k j / entry M k c))"

text \<open>
  The columns are visited from left to right.  In each, the first entry at or below the
  pivot row that is not zero becomes the pivot: its row is swapped into the pivot row, the
  column joins the pivot columns, and the pivot row moves down by one.  A column without
  such an entry is skipped.
\<close>

fun row_reduce :: "nat list \<Rightarrow> nat \<Rightarrow> real array2 \<Rightarrow> nat list \<Rightarrow> real array2 \<times> nat list" where
  "row_reduce [] piv_row M pivot_cols = (M, pivot_cols)"
| "row_reduce (piv_col # cols) piv_row M pivot_cols =
     (case find (\<lambda>i. entry M i piv_col \<noteq> 0) [piv_row..<shape0 M] of
        None \<Rightarrow> row_reduce cols piv_row M pivot_cols
      | Some i \<Rightarrow>
          row_reduce cols (Suc piv_row) (eliminate piv_row piv_col (swap_rows piv_row i M))
            (pivot_cols @ [piv_col]))"

definition rref :: "real array2 \<Rightarrow> real array2 \<times> nat list" where
  "rref M = row_reduce [0..<shape1 M] 0 M []"

text \<open>
  \<open>np.linalg.matrix_rank(A)\<close> counts the singular values of \<open>A\<close> that exceed a
  tolerance of the size of the rounding errors.  Rounding is not modelled: the rank is
  taken in exact arithmetic, where it is the number of pivot columns of the reduced row
  echelon form.
\<close>

definition matrix_rank :: "exact_float array2 \<Rightarrow> nat" where
  "matrix_rank A = length (snd (rref (sympy_Matrix A)))"

text \<open>
  The columns are linearly dependent when some combination of them with coefficients that
  are not all zero vanishes; they are multiples of a single column \<open>v\<close> that is not zero
  when column \<open>j\<close> is \<open>s j\<close> times \<open>v\<close>.
\<close>

definition columns_dependent :: "exact_float array2 \<Rightarrow> bool" where
  "columns_dependent A \<longleftrightarrow>
     (\<exists>x. (\<exists>j < shape1 A. x j \<noteq> 0) \<and>
          (\<forall>i < shape0 A. (\<Sum>j < shape1 A. num (entry A i j) * x j) = 0))"

definition columns_multiples :: "exact_float array2 \<Rightarrow> bool" where
  "columns_multiples A \<longleftrightarrow>
     (\<exists>v s. (\<exists>i < shape0 A. v i \<noteq> 0) \<and>
            (\<forall>i < shape0 A. \<forall>j < shape1 A. num (entry A i j) = s j * v i))"

text \<open>
  For the proofs: \<open>x\<close> is a solution of the homogeneous system of \<open>M\<close>, and the pivot
  columns found so far are unit columns, the \<open>t\<close>-th with its one in row \<open>t\<close>.
\<close>

definition annihilates :: "real array2 \<Rightarrow> (nat \<Rightarrow> real) \<Rightarrow> bool" where
  "annihilates M x \<longleftrightarrow> (\<forall>i < shape0 M. (\<Sum>j < shape1 M. entry M i j * x j) = 0)"

definition pivots_ok :: "real array2 \<Rightarrow> nat list \<Rightarrow> bool" where
  "pivots_ok M piv \<longleftrightarrow>
     length piv \<le> shape0 M \<and>
     (\<forall>t < length piv. piv ! t < shape1 M \<and> entry M t (piv ! t) = 1 \<and>
        (\<forall>i < shape0 M. i \<noteq> t \<longrightarrow> entry M i (piv ! t) = 0))"

section \<open>The textbook formulas\<close>

text \<open>
  The formulas as the notebooks and the glossary write them, on a real sequence
  \<open>g 0, ..., g (n - 1)\<close>: the mean, the covariance of two sequences and the variance, the
  last two with the divisor \<open>n - ddof\<close> (\<open>ddof = 1\<close> unbiased, \<open>ddof = 0\<close> biased).
\<close>

definition mean_formula :: "nat \<Rightarrow> (nat \<Rightarrow> real) \<Rightarrow> real" where
  "mean_formula n g = (\<Sum>i<n. g i) / real n"

definition cov_formula :: "nat \<Rightarrow> nat \<Rightarrow> (nat \<Rightarrow> real) \<Rightarrow> (nat \<Rightarrow> real) \<Rightarrow> real" where
  "cov_formula ddof n g h =
     (\<Sum>i<n. (g i - mean_formula n g) * (h i - mean_formula n h)) / real (n - ddof)"

definition var_formula :: "nat \<Rightarrow> nat \<Rightarrow> (nat \<Rightarrow> real) \<Rightarrow> real" where
  "var_formula ddof n g = (\<Sum>i<n. (g i - mean_formula n g)\<^sup>2) / real (n - ddof)"

text \<open>
  The standardized sequence of the correlation formula: the deviations from the mean divided
  by the standard deviation with the divisor \<open>n - 1\<close>.
\<close>

definition z_formula :: "nat \<Rightarrow> (nat \<Rightarrow> real) \<Rightarrow> nat \<Rightarrow> real" where
  "z_formula n g i = (g i - mean_formula n g) / sqrt (var_formula 1 n g)"

text \<open>
  A statistic that is a number other than zero.  The standard deviation of a column with
  fewer than two entries, or with an entry that is not a finite number, is NaN (or an
  infinity) and is not such a number.
\<close>

definition nonzero_number :: "exact_float \<Rightarrow> bool" where
  "nonzero_number v \<longleftrightarrow> isfinite v \<and> v \<noteq> 0"

section \<open>The notebooks' example data\<close>

text \<open>Part 1: \<^verbatim>\<open>x = np.array([[1,2,3,4,5,6]])\<close>\<close>

definition x_example :: "exact_float array2" where
  "x_example = \<lparr>shape0 = 1, shape1 = 6, rows = [[Num 1, Num 2, Num 3, Num 4, Num 5, Num 6]]\<rparr>"

text \<open>Part 1: \<^verbatim>\<open>y = np.array([[1, 2, 3, np.nan, 5, 6]])\<close>\<close>

definition y_example :: "exact_float array2" where
  "y_example = \<lparr>shape0 = 1, shape1 = 6, rows = [[Num 1, Num 2, Num 3, NaN, Num 5, Num 6]]\<rparr>"

text \<open>
  Part 2: \<^verbatim>\<open>A = np.array([2, -1, 6, 3]); A = A[np.newaxis,:]\<close>, an int64 array of
  shape \<open>(1, 4)\<close>.
\<close>

definition A_row :: "64 word array2" where
  "A_row = \<lparr>shape0 = 1, shape1 = 4, rows = [[2, - 1, 6, 3]]\<rparr>"

text \<open>
  Part 2: \<^verbatim>\<open>A = np.array([[4, -2, 12],[-2, 1, -6],[12, -6, 36],[-6, 3, -18]])\<close>, four
  observations of three variables.  The statistics convert its integers to floats.
\<close>

definition A_example :: "exact_float array2" where
  "A_example = \<lparr>shape0 = 4, shape1 = 3,
     rows = [[Num 4, Num (- 2), Num 12], [Num (- 2), Num 1, Num (- 6)],
             [Num 12, Num (- 6), Num 36], [Num (- 6), Num 3, Num (- 18)]]\<rparr>"

text \<open>Two observations of a single variable: \<^verbatim>\<open>np.array([[1.], [3.]])\<close>\<close>

definition A_single :: "exact_float array2" where
  "A_single = \<lparr>shape0 = 2, shape1 = 1, rows = [[Num 1], [Num 3]]\<rparr>"

section \<open>Basic facts about arrays\<close>

lemma shape0_mk [simp]: "shape0 (mk n p f) = n"
  by (simp add: mk_def)

lemma shape1_mk [simp]: "shape1 (mk n p f) = p"
  by (simp add: mk_def)

lemma entry_mk [simp]: "i < n \<Longrightarrow> j < p \<Longrightarrow> entry (mk n p f) i j = f i j"
  by (simp add: mk_def entry_def)

lemma well_shaped_mk [simp]: "well_shaped (mk n p f)"
  by (simp add: well_shaped_def mk_def list_all_iff)

lemma mk_cong: "(\<And>i j. i < n \<Longrightarrow> j < p \<Longrightarrow> f i j = g i j) \<Longrightarrow> mk n p f = mk n p g"
  by (simp add: mk_def)

lemma well_shaped_eq_mk:
  assumes "well_shaped A"
  shows "A = mk (shape0 A) (shape1 A) (entry A)"
proof -
  have len: "length (rows A) = shape0 A" and r: "\<And>r. r \<in> set (rows A) \<Longrightarrow> length r = shape1 A"
    using assms by (auto simp: well_shaped_def list_all_iff)
  have "rows A = map (\<lambda>i. map (\<lambda>j. rows A ! i ! j) [0..<shape1 A]) [0..<shape0 A]"
  proof (rule nth_equalityI)
    show "length (rows A) = length (map (\<lambda>i. map (\<lambda>j. rows A ! i ! j) [0..<shape1 A]) [0..<shape0 A])"
      by (simp add: len)
  next
    fix i assume i: "i < length (rows A)"
    then have "length (rows A ! i) = shape1 A" by (simp add: r)
    then have "rows A ! i = map (\<lambda>j. rows A ! i ! j) [0..<shape1 A]"
      by (metis map_nth)
    then show "rows A ! i = map (\<lambda>i. map (\<lambda>j. rows A ! i ! j) [0..<shape1 A]) [0..<shape0 A] ! i"
      using i len by simp
  qed
  then show ?thesis by (simp add: mk_def entry_def)
qed

lemma map_array_mk [simp]: "map_array h (mk n p f) = mk n p (\<lambda>i j. h (f i j))"
  by (simp add: map_array_def mk_def comp_def)

lemma T_mk [simp]: "T (mk n p f) = mk p n (\<lambda>i j. f j i)"
proof -
  have "mk p n (\<lambda>i j. entry (mk n p f) j i) = mk p n (\<lambda>i j. f j i)"
    by (rule mk_cong) simp
  then show ?thesis by (simp add: T_def)
qed

lemma col_mk [simp]: "j < p \<Longrightarrow> col (mk n p f) j = map (\<lambda>i. f i j) [0..<n]"
  by (simp add: col_def)

lemma row_mk [simp]: "i < n \<Longrightarrow> row (mk n p f) i = map (\<lambda>j. f i j) [0..<p]"
  by (simp add: row_def)

lemma np_dot_mk:
  "np_dot (mk n p f) (mk p q g) =
     Inr (mk n q (\<lambda>i j. sum_list (map (\<lambda>k. f i k * g k j) [0..<p])))"
proof -
  have "mk n q (\<lambda>i j. sum_list (map (\<lambda>k. entry (mk n p f) i k * entry (mk p q g) k j) [0..<p]))
      = mk n q (\<lambda>i j. sum_list (map (\<lambda>k. f i k * g k j) [0..<p]))"
    by (rule mk_cong, rule arg_cong [where f = sum_list]) simp
  then show ?thesis by (simp add: np_dot_def)
qed

section \<open>Missing values\<close>

lemma NaN_plus [simp]: "NaN + v = NaN" "v + NaN = NaN"
  by (cases v; simp)+

lemma NaN_divide [simp]: "NaN / v = NaN" "v / NaN = NaN"
  by (cases v; simp)+

lemma sum_list_NaN: "NaN \<in> set xs \<Longrightarrow> sum_list xs = NaN"
  by (induction xs) auto

lemma ravel_map_array: "ravel (map_array f A) = map f (ravel A)"
  by (simp add: ravel_def map_array_def map_concat)

lemma mask_select: "map fst (filter snd (zip xs (map g xs))) = filter g xs"
  by (induction xs) auto

lemma getitem_valid: "getitem_mask y (valid y) = Inr (filter (\<lambda>v. \<not> isnan v) (ravel y))"
proof -
  have "ravel (valid y) = map (\<lambda>v. \<not> isnan v) (ravel y)"
    by (simp add: valid_def invert_def np_isnan_def ravel_map_array)
  moreover have "shape0 (valid y) = shape0 y" "shape1 (valid y) = shape1 y"
    by (simp_all add: valid_def invert_def np_isnan_def map_array_def)
  ultimately show ?thesis
    by (simp add: getitem_mask_def mask_select)
qed

lemma sum_list_replace_nan:
  "sum_list (map (\<lambda>v. if isnan v then 0 else v) xs) = sum_list (filter (\<lambda>v. \<not> isnan v) xs)"
  by (induction xs) auto

text \<open>
  Claim C6: the mean of an array that holds at least one NaN (and is therefore not empty)
  is NaN: the missing value goes through the sum and the division, it is neither skipped
  nor turned into an exception.
\<close>

theorem mean_propagates_nan:
  assumes "NaN \<in> set (ravel y)"
  shows "np_mean y = NaN"
  using assms by (simp add: np_mean_def mean1_def sum_list_NaN)

theorem mean_propagates_nan_witness:
  "NaN \<in> set (ravel y_example) \<and> np_mean y_example = NaN"
  using mean_propagates_nan [of y_example] by (simp add: y_example_def ravel_def)



section \<open>Outer and inner product of a row vector\<close>

lemma np_diagonal_mk: "np_diagonal (mk n p f) = map (\<lambda>i. f i i) [0..<min n p]"
  by (simp add: np_diagonal_def)

lemma mk_1_1: "mk (Suc 0) (Suc 0) f = \<lparr>shape0 = 1, shape1 = 1, rows = [[f 0 0]]\<rparr>"
  by (simp add: mk_def)

lemma B_row_vector:
  fixes a :: "nat \<Rightarrow> nat \<Rightarrow> 'a::{comm_monoid_add,times}"
  shows "B (mk (Suc 0) k a) = Inr (mk k k (\<lambda>i j. a 0 i * a 0 j))"
  by (simp add: B_def np_dot_mk [where p = "Suc 0"])

lemma inner_row_vector:
  fixes a :: "nat \<Rightarrow> nat \<Rightarrow> 'a::{comm_monoid_add,times}"
  shows "inner (mk (Suc 0) k a)
         = Inr \<lparr>shape0 = 1, shape1 = 1, rows = [[sum_list (map (\<lambda>t. a 0 t * a 0 t) [0..<k])]]\<rparr>"
  by (simp add: inner_def np_dot_mk mk_1_1)

text \<open>
  Claim C8: for a row vector \<open>A\<close> of shape \<open>(1, k)\<close>, \<open>np.dot(A.T, A)\<close> is a
  \<open>k x k\<close> array equal to its transpose, and its trace is the single entry of
  \<open>np.dot(A, A.T)\<close>, the sum of the squares of the entries of \<open>A\<close>.  The entries
  may be floats (special values included) or int64 values with wrap-around: only the
  commutativity of the product is used.
\<close>

theorem outer_product_symmetric_trace:
  fixes A :: "'a::{comm_monoid_add,ab_semigroup_mult} array2"
  assumes "well_shaped A" and "shape0 A = 1"
  shows "\<exists>M s. B A = Inr M \<and> well_shaped M \<and> shape0 M = shape1 A \<and> shape1 M = shape1 A
               \<and> T M = M
               \<and> inner A = Inr \<lparr>shape0 = 1, shape1 = 1, rows = [[s]]\<rparr>
               \<and> np_trace M = s
               \<and> s = sum_list (map (\<lambda>v. v * v) (row A 0))"
proof -
  define k where "k = shape1 A"
  define a where "a = entry A"
  have A: "A = mk (Suc 0) k a"
    using well_shaped_eq_mk [OF assms(1)] assms(2) by (simp add: k_def a_def)
  let ?M = "mk k k (\<lambda>i j. a 0 i * a 0 j)"
  let ?s = "sum_list (map (\<lambda>t. a 0 t * a 0 t) [0..<k])"
  have sym: "T ?M = ?M"
    by (simp, rule mk_cong) (rule mult.commute)
  have tr: "np_trace ?M = ?s"
    by (simp add: np_trace_def np_diagonal_mk)
  have rw: "sum_list (map (\<lambda>v. v * v) (row A 0)) = ?s"
    by (simp add: A comp_def)
  show ?thesis
    using sym tr rw by (simp add: A B_row_vector inner_row_vector)
qed

theorem outer_product_symmetric_trace_witness:
  "well_shaped A_row \<and> shape0 A_row = 1 \<and>
   (\<exists>M s. B A_row = Inr M \<and> well_shaped M \<and> shape0 M = shape1 A_row \<and> shape1 M = shape1 A_row
               \<and> T M = M
               \<and> inner A_row = Inr \<lparr>shape0 = 1, shape1 = 1, rows = [[s]]\<rparr>
               \<and> np_trace M = s
               \<and> s = sum_list (map (\<lambda>v. v * v) (row A_row 0)))"
proof -
  have h: "well_shaped A_row" "shape0 A_row = 1"
    by (simp_all add: A_row_def well_shaped_def)
  show ?thesis
    using h outer_product_symmetric_trace [OF h] by blast
qed

section \<open>Arrays of real numbers\<close>

lemma Num_minus [simp]: "Num a - Num b = Num (a - b)"
  by (simp add: minus_exact_float_def)

lemma sum_list_Num: "sum_list (map (\<lambda>k. Num (g k)) ks) = Num (sum_list (map g ks))"
  by (induction ks) (simp_all add: zero_exact_float_def)

lemma sum_list_upt: "sum_list (map g [0..<n]) = (\<Sum>i<n. g i)" for g :: "nat \<Rightarrow> real"
  by (simp add: interv_sum_list_conv_sum_set_nat atLeast0LessThan)

lemma sum_Num_upt: "sum_list (map (\<lambda>k. Num (g k)) [0..<n]) = Num (\<Sum>i<n. g i)"
  by (simp add: sum_list_Num sum_list_upt)

lemma mean1_Num:
  "0 < n \<Longrightarrow> mean1 (map (\<lambda>i. Num (g i)) [0..<n]) = Num (mean_formula n g)"
  by (simp add: mean1_def sum_Num_upt mean_formula_def)

lemma var1_Num:
  assumes "ddof < n"
  shows "var1 ddof (map (\<lambda>i. Num (g i)) [0..<n]) = Num (var_formula ddof n g)"
proof -
  have n: "0 < n" using assms by simp
  have "sum_list (map (\<lambda>v. (v - Num (mean_formula n g)) * (v - Num (mean_formula n g)))
                    (map (\<lambda>i. Num (g i)) [0..<n]))
        = Num (\<Sum>i<n. (g i - mean_formula n g)\<^sup>2)"
    by (simp add: comp_def sum_Num_upt power2_eq_square)
  then show ?thesis
    using assms by (simp add: var1_def mean1_Num [OF n] var_formula_def Let_def)
qed

lemma finite_entry:
  assumes "well_shaped A" "all_finite A" "i < shape0 A" "j < shape1 A"
  shows "entry A i j = Num (num (entry A i j))"
proof -
  have "rows A ! i \<in> set (rows A)" and len: "length (rows A ! i) = shape1 A"
    using assms(1,3) by (auto simp: well_shaped_def list_all_iff)
  then have "rows A ! i ! j \<in> set (rows A ! i)"
    using assms(4) by simp
  with \<open>rows A ! i \<in> set (rows A)\<close> have "isfinite (rows A ! i ! j)"
    using assms(2) by (auto simp: all_finite_def list_all_iff)
  then show ?thesis
    by (cases "rows A ! i ! j") (simp_all add: entry_def)
qed

lemma finite_eq_mk:
  assumes "well_shaped A" "all_finite A"
  shows "A = mk (shape0 A) (shape1 A) (\<lambda>i j. Num (num (entry A i j)))"
proof -
  have "mk (shape0 A) (shape1 A) (entry A) = mk (shape0 A) (shape1 A) (\<lambda>i j. Num (num (entry A i j)))"
    by (rule mk_cong) (rule finite_entry [OF assms])
  then show ?thesis
    using well_shaped_eq_mk [OF assms(1)] by simp
qed

lemma ravel_row_vector: "ravel (mk (Suc 0) n f) = map (f 0) [0..<n]"
  by (simp add: ravel_def mk_def)

lemma x_var_row_vector:
  assumes "2 \<le> n"
  shows "x_var (mk (Suc 0) n (\<lambda>i j. Num (a j)))
         = Inr \<lparr>shape0 = 1, shape1 = 1, rows = [[Num (var_formula 1 n a)]]\<rparr>"
proof -
  let ?x = "mk (Suc 0) n (\<lambda>i j. Num (a j))"
  have n: "0 < n" using assms by simp
  have m: "np_mean ?x = Num (mean_formula n a)"
    by (simp add: np_mean_def ravel_row_vector mean1_Num [OF n])
  have xi: "xi ?x = mk (Suc 0) n (\<lambda>i j. Num (a j - mean_formula n a))"
    by (simp add: xi_def m)
  have d: "real (n - Suc 0) = real n - 1"
    using assms by (simp add: of_nat_diff)
  have "x_var ?x = Inr (mk (Suc 0) (Suc 0)
          (\<lambda>i j. Num ((\<Sum>i<n. (a i - mean_formula n a) * (a i - mean_formula n a)) / (real n - 1))))"
    using assms by (simp add: x_var_def xi np_dot_mk sum_Num_upt np_size_def)
  then show ?thesis
    by (simp add: mk_1_1 var_formula_def power2_eq_square d)
qed



section \<open>The covariance matrix\<close>

lemma mean_axis0_Num:
  assumes "0 < n"
  shows "mean_axis0 (mk n p (\<lambda>i j. Num (a i j))) = map (\<lambda>j. Num (mean_formula n (\<lambda>i. a i j))) [0..<p]"
  by (simp add: mean_axis0_def mean1_Num [OF assms])

lemma mean_axis1_Num:
  assumes "0 < p"
  shows "mean_axis1 (mk n p (\<lambda>i j. Num (a i j))) = map (\<lambda>i. Num (mean_formula p (a i))) [0..<n]"
  by (simp add: mean_axis1_def mean1_Num [OF assms])

lemma var_axis0_Num:
  assumes "ddof < n"
  shows "var_axis0 (mk n p (\<lambda>i j. Num (a i j))) ddof
         = map (\<lambda>j. Num (var_formula ddof n (\<lambda>i. a i j))) [0..<p]"
  by (simp add: var_axis0_def var1_Num [OF assms])

lemma A0_Num:
  assumes "0 < n"
  shows "A0 (mk n p (\<lambda>i j. Num (a i j)))
         = mk n p (\<lambda>i j. Num (a i j - mean_formula n (\<lambda>i. a i j)))"
  unfolding A0_def by (simp, rule mk_cong) (simp add: mean_axis0_Num [OF assms])

lemma scaled_gram_Num:
  assumes "2 \<le> n"
  shows "scaled_gram (mk n p (\<lambda>i j. Num (b i j)))
         = Inr (mk p p (\<lambda>j k. Num ((\<Sum>i<n. b i j * b i k) / real (n - 1))))"
proof -
  show ?thesis
    using assms by (simp add: scaled_gram_def np_dot_mk sum_Num_upt of_nat_diff)
qed

lemma cov_matmul_Num:
  assumes "2 \<le> n"
  shows "cov_matmul (mk n p (\<lambda>i j. Num (a i j)))
         = Inr (mk p p (\<lambda>j k. Num (cov_formula 1 n (\<lambda>i. a i j) (\<lambda>i. a i k))))"
proof -
  have n: "0 < n" using assms by simp
  show ?thesis
    by (simp add: cov_matmul_def A0_Num [OF n] scaled_gram_Num [OF assms] cov_formula_def)
qed

lemma mean_formula_centered:
  assumes "0 < n"
  shows "mean_formula n (\<lambda>i. g i - mean_formula n g) = 0"
  using assms by (simp add: mean_formula_def sum_subtractf)

lemma var_formula_eq_cov: "var_formula ddof n g = cov_formula ddof n g g"
  by (simp add: var_formula_def cov_formula_def power2_eq_square)

lemma cov_formula_commute: "cov_formula ddof n g h = cov_formula ddof n h g"
  by (simp add: cov_formula_def mult.commute)

lemma mk_0_0: "mk 0 0 f = mk 0 0 g"
  by (simp add: mk_def)

lemma np_cov_Num:
  assumes "2 \<le> n"
  shows "np_cov (mk p n (\<lambda>j i. Num (b j i))) 1
         = Inr (squeeze (mk p p (\<lambda>j k. Num ((\<Sum>i<n. (b j i - mean_formula n (b j))
                                                    * (b k i - mean_formula n (b k)))
                                              / real (n - 1)))))"
proof (cases "p = 0")
  case True
  then show ?thesis
    by (simp add: np_cov_def squeeze_def mk_0_0 [of "\<lambda>i j. 0"])
next
  case False
  define M where "M = mk p n (\<lambda>j i. Num (b j i))"
  define X where "X = mk p n (\<lambda>j i. Num (b j i - mean_formula n (b j)))"
  have n: "0 < n" using assms by simp
  have sh: "shape0 M = p" "shape1 M = n"
    by (simp_all add: M_def)
  have Xeq: "mk (shape0 M) (shape1 M) (\<lambda>i j. entry M i j - mean_axis1 M ! i) = X"
    unfolding sh X_def by (rule mk_cong) (simp add: M_def mean_axis1_Num [OF n])
  have dot: "np_dot X (T X)
      = Inr (mk p p (\<lambda>j k. Num (\<Sum>i<n. (b j i - mean_formula n (b j))
                                        * (b k i - mean_formula n (b k)))))"
    by (simp add: X_def np_dot_mk sum_Num_upt)
  have fact: "(if int (shape1 M) - int 1 \<le> 0 then 0 else real (shape1 M - 1)) = real (n - 1)"
    using assms by (simp add: sh)
  have nz: "real (n - 1) \<noteq> 0"
    using assms by simp
  have "np_cov M 1 = Inr (squeeze (map_array (\<lambda>v. v * (Num 1 / Num (real (n - 1))))
           (mk p p (\<lambda>j k. Num (\<Sum>i<n. (b j i - mean_formula n (b j))
                                        * (b k i - mean_formula n (b k)))))))"
    unfolding np_cov_def Let_def Xeq fact dot using False by (simp add: sh)
  also have "map_array (\<lambda>v. v * (Num 1 / Num (real (n - 1))))
           (mk p p (\<lambda>j k. Num (\<Sum>i<n. (b j i - mean_formula n (b j))
                                        * (b k i - mean_formula n (b k)))))
      = mk p p (\<lambda>j k. Num ((\<Sum>i<n. (b j i - mean_formula n (b j))
                                                    * (b k i - mean_formula n (b k)))
                                              / real (n - 1)))"
    using nz by simp
  finally show ?thesis
    by (simp add: M_def)
qed

lemma np_cov_T_Num:
  assumes "2 \<le> n"
  shows "np_cov (T (mk n p (\<lambda>i j. Num (a i j)))) 1
         = Inr (squeeze (mk p p (\<lambda>j k. Num (cov_formula 1 n (\<lambda>i. a i j) (\<lambda>i. a i k)))))"
  using np_cov_Num [OF assms, of p "\<lambda>j i. a i j"] by (simp add: cov_formula_def)

lemma squeeze_square:
  "squeeze (mk p p f) = (if p = 1 then Arr0 (f 0 0) else Arr2 (mk p p f))"
  by (simp add: squeeze_def)

lemma cov_matmul_real:
  assumes "well_shaped A" and "all_finite A" and "2 \<le> shape0 A"
  shows "cov_matmul A = Inr (mk (shape1 A) (shape1 A)
           (\<lambda>j k. Num (cov_formula 1 (shape0 A) (\<lambda>i. num (entry A i j)) (\<lambda>i. num (entry A i k)))))"
  using cov_matmul_Num [OF assms(3), of "shape1 A" "\<lambda>i j. num (entry A i j)"]
    finite_eq_mk [OF assms(1,2)] by simp

lemma C_real:
  assumes "well_shaped A" and "all_finite A" and "2 \<le> shape0 A"
  shows "C A = Inr (squeeze (mk (shape1 A) (shape1 A)
           (\<lambda>j k. Num (cov_formula 1 (shape0 A) (\<lambda>i. num (entry A i j)) (\<lambda>i. num (entry A i k))))))"
  using np_cov_T_Num [OF assms(3), of "shape1 A" "\<lambda>i j. num (entry A i j)"]
    finite_eq_mk [OF assms(1,2)] by (simp add: C_def)

lemma cov_formula_centered:
  assumes "0 < n"
  shows "cov_formula ddof n (\<lambda>i. g i - mean_formula n g) (\<lambda>i. h i - mean_formula n h)
         = cov_formula ddof n g h"
  by (simp add: cov_formula_def mean_formula_centered [OF assms])

lemma cov_centered_real:
  assumes "well_shaped A" and "all_finite A" and "2 \<le> shape0 A"
  shows "cov_centered A = Inr (squeeze (mk (shape1 A) (shape1 A)
           (\<lambda>j k. Num (cov_formula 1 (shape0 A) (\<lambda>i. num (entry A i j)) (\<lambda>i. num (entry A i k))))))"
proof -
  define n p a where "n = shape0 A" and "p = shape1 A" and "a = (\<lambda>i j. num (entry A i j))"
  have A: "A = mk n p (\<lambda>i j. Num (a i j))"
    using finite_eq_mk [OF assms(1,2)] by (simp add: n_def p_def a_def)
  have n: "0 < n" "2 \<le> n" using assms(3) by (simp_all add: n_def)
  have "cov_centered (mk n p (\<lambda>i j. Num (a i j)))
        = Inr (squeeze (mk p p (\<lambda>j k. Num (cov_formula 1 n (\<lambda>i. a i j) (\<lambda>i. a i k)))))"
    unfolding cov_centered_def A0_Num [OF n(1)]
    by (simp only: np_cov_T_Num [OF n(2)] cov_formula_centered [OF n(1)])
  then have "cov_centered A
        = Inr (squeeze (mk p p (\<lambda>j k. Num (cov_formula 1 n (\<lambda>i. a i j) (\<lambda>i. a i k)))))"
    by (subst A)
  then show ?thesis
    unfolding n_def p_def a_def .
qed


lemma var_axis0_real:
  assumes "well_shaped A" and "all_finite A" and "ddof < shape0 A"
  shows "var_axis0 A ddof
         = map (\<lambda>j. Num (var_formula ddof (shape0 A) (\<lambda>i. num (entry A i j)))) [0..<shape1 A]"
  using var_axis0_Num [OF assms(3), of "shape1 A" "\<lambda>i j. num (entry A i j)"]
    finite_eq_mk [OF assms(1,2)] by simp

lemma A_single_mk: "A_single = mk 2 1 (\<lambda>i j. Num (if i = 0 then 1 else 3))"
  by (simp add: A_single_def mk_def upt_rec)

lemma cov_matmul_A_single: "cov_matmul A_single = Inr \<lparr>shape0 = 1, shape1 = 1, rows = [[Num 2]]\<rparr>"
  unfolding A_single_mk
  by (simp add: cov_matmul_Num mk_1_1 cov_formula_def mean_formula_def lessThan_Suc numeral_2_eq_2)

lemma C_A_single: "C A_single = Inr (Arr0 (Num 2))"
proof -
  have "np_cov (T (mk 2 1 (\<lambda>i j. Num (if i = 0 then 1 else 3)))) 1
        = Inr (squeeze (mk 1 1 (\<lambda>j k. Num (cov_formula 1 2 (\<lambda>i. if i = 0 then 1 else 3)
                                                              (\<lambda>i. if i = 0 then 1 else 3)))))"
    by (rule np_cov_T_Num) simp
  then show ?thesis
    unfolding C_def A_single_mk
    by (simp add: squeeze_square cov_formula_def mean_formula_def lessThan_Suc numeral_2_eq_2)
qed

text \<open>
  Claim C2: for a data matrix \<open>A\<close> of real numbers with \<open>n \<ge> 2\<close> rows and \<open>p\<close>
  columns, the covariance matrix \<open>1/(n-1) * (A0.T @ A0)\<close> is computed without error, has
  shape \<open>(p, p)\<close> and is equal to its transpose.
\<close>

theorem covariance_matrix_symmetric:
  assumes "well_shaped A" and "all_finite A" and "2 \<le> shape0 A"
  shows "\<exists>M. cov_matmul A = Inr M \<and> well_shaped M
             \<and> shape0 M = shape1 A \<and> shape1 M = shape1 A
             \<and> T M = M
             \<and> (\<forall>j < shape1 A. \<forall>k < shape1 A. entry M j k = entry M k j)"
proof -
  let ?c = "\<lambda>j k. Num (cov_formula 1 (shape0 A) (\<lambda>i. num (entry A i j)) (\<lambda>i. num (entry A i k)))"
  let ?M = "mk (shape1 A) (shape1 A) ?c"
  have sym: "?c j k = ?c k j" for j k
    by (simp add: cov_formula_commute)
  have "T ?M = mk (shape1 A) (shape1 A) (\<lambda>j k. ?c k j)"
    by (rule T_mk)
  then have "T ?M = ?M"
    by (simp only: sym)
  moreover have "\<forall>j < shape1 A. \<forall>k < shape1 A. entry ?M j k = entry ?M k j"
    using sym by simp
  ultimately show ?thesis
    using cov_matmul_real [OF assms] by simp
qed

theorem covariance_matrix_symmetric_witness:
  "well_shaped A_example \<and> all_finite A_example \<and> 2 \<le> shape0 A_example \<and>
   (\<exists>M. cov_matmul A_example = Inr M \<and> well_shaped M
             \<and> shape0 M = shape1 A_example \<and> shape1 M = shape1 A_example
             \<and> T M = M
             \<and> (\<forall>j < shape1 A_example. \<forall>k < shape1 A_example. entry M j k = entry M k j))"
proof -
  have h: "well_shaped A_example" "all_finite A_example" "2 \<le> shape0 A_example"
    by (simp_all add: A_example_def well_shaped_def all_finite_def)
  show ?thesis
    using h covariance_matrix_symmetric [OF h] by blast
qed






section \<open>Standardized columns and the correlation matrix\<close>

lemma var_formula_nonneg: "0 \<le> var_formula ddof n g"
  by (simp add: var_formula_def sum_nonneg)

lemma sum_centered:
  assumes "0 < n"
  shows "(\<Sum>i<n. g i - mean_formula n g) = 0"
  using assms by (simp add: mean_formula_def sum_subtractf)

lemma mean_z_formula:
  shows "mean_formula n (z_formula n g) = 0"
proof (cases "n = 0")
  case True
  then show ?thesis by (simp add: mean_formula_def)
next
  case False
  then have n: "0 < n" by simp
  have "(\<Sum>i<n. z_formula n g i) = (\<Sum>i<n. g i - mean_formula n g) / sqrt (var_formula 1 n g)"
    by (simp add: z_formula_def sum_divide_distrib)
  then have "(\<Sum>i<n. z_formula n g i) = 0"
    by (simp only: sum_centered [OF n] div_0)
  then show ?thesis
    unfolding mean_formula_def [of n "z_formula n g"] by simp
qed

lemma sum_squares_z_formula:
  assumes "2 \<le> n" and "var_formula 1 n g \<noteq> 0"
  shows "(\<Sum>i<n. (z_formula n g i)\<^sup>2) = real (n - 1)"
proof -
  let ?v = "var_formula 1 n g"
  have nz: "real (n - 1) \<noteq> 0" using assms(1) by simp
  have S: "(\<Sum>i<n. (g i - mean_formula n g)\<^sup>2) = ?v * real (n - 1)"
    using nz by (simp add: var_formula_def)
  have "(\<Sum>i<n. (z_formula n g i)\<^sup>2) = (\<Sum>i<n. (g i - mean_formula n g)\<^sup>2) / ?v"
    by (simp add: z_formula_def power_divide var_formula_nonneg sum_divide_distrib)
  also have "\<dots> = real (n - 1)"
    using assms(2) by (simp add: S)
  finally show ?thesis .
qed

lemma var_z_formula:
  assumes "2 \<le> n" and "var_formula 1 n g \<noteq> 0"
  shows "var_formula 1 n (z_formula n g) = 1"
proof -
  have nz: "real (n - 1) \<noteq> 0" using assms(1) by simp
  have "var_formula 1 n (z_formula n g) = real (n - 1) / real (n - 1)"
    unfolding var_formula_def [of 1 n "z_formula n g"] mean_z_formula diff_zero
    by (simp only: sum_squares_z_formula [OF assms])
  then show ?thesis
    using nz by simp
qed

lemma correlation_bounded:
  assumes "2 \<le> n" and "var_formula 1 n g \<noteq> 0" and "var_formula 1 n h \<noteq> 0"
  shows "\<bar>(\<Sum>i<n. z_formula n g i * z_formula n h i) / real (n - 1)\<bar> \<le> 1"
proof -
  let ?u = "z_formula n g" and ?w = "z_formula n h"
  let ?S = "\<Sum>i<n. ?u i * ?w i"
  have pos: "0 < real (n - 1)" using assms(1) by simp
  have sq: "(\<Sum>i<n. (?u i)\<^sup>2) = real (n - 1)" "(\<Sum>i<n. (?w i)\<^sup>2) = real (n - 1)"
    by (rule sum_squares_z_formula [OF assms(1,2)], rule sum_squares_z_formula [OF assms(1,3)])
  have "0 \<le> (\<Sum>i<n. (?u i - ?w i)\<^sup>2)"
    by (simp add: sum_nonneg)
  also have "(\<Sum>i<n. (?u i - ?w i)\<^sup>2) = (\<Sum>i<n. (?u i)\<^sup>2) + (\<Sum>i<n. (?w i)\<^sup>2) - 2 * ?S"
    by (simp add: power2_diff sum.distrib sum_subtractf sum_distrib_left mult.assoc)
  finally have up: "?S \<le> real (n - 1)"
    by (simp add: sq)
  have "0 \<le> (\<Sum>i<n. (?u i + ?w i)\<^sup>2)"
    by (simp add: sum_nonneg)
  also have "(\<Sum>i<n. (?u i + ?w i)\<^sup>2) = (\<Sum>i<n. (?u i)\<^sup>2) + (\<Sum>i<n. (?w i)\<^sup>2) + 2 * ?S"
    by (simp add: power2_sum sum.distrib sum_distrib_left mult.assoc)
  finally have lo: "- real (n - 1) \<le> ?S"
    by (simp add: sq)
  show ?thesis
    using up lo pos by (simp add: abs_le_iff field_simps)
qed

lemma correlation_is_normalized_covariance:
  "(\<Sum>i<n. z_formula n g i * z_formula n h i) / real (n - 1)
   = cov_formula 1 n g h / (sqrt (var_formula 1 n g) * sqrt (var_formula 1 n h))"
proof -
  have "(\<Sum>i<n. z_formula n g i * z_formula n h i)
      = (\<Sum>i<n. (g i - mean_formula n g) * (h i - mean_formula n h))
        / (sqrt (var_formula 1 n g) * sqrt (var_formula 1 n h))"
    by (simp add: z_formula_def sum_divide_distrib)
  then show ?thesis
    by (simp add: cov_formula_def)
qed

lemma isfinite_plus: "isfinite (u + v) \<Longrightarrow> isfinite u \<and> isfinite v"
  by (cases u; cases v) simp_all

lemma isfinite_minus: "isfinite (u - v) \<Longrightarrow> isfinite u \<and> isfinite v"
  by (cases u; cases v) (simp_all add: minus_exact_float_def)

lemma isfinite_times: "isfinite (u * v) \<Longrightarrow> isfinite u \<and> isfinite v"
  by (cases u; cases v) (simp_all split: if_splits)

lemma isfinite_divide: "isfinite (u / v) \<Longrightarrow> isfinite u \<and> v \<noteq> 0"
  by (cases u; cases v) (simp_all add: zero_exact_float_def split: if_splits)

lemma isfinite_sqrt: "isfinite (np_sqrt v) \<Longrightarrow> isfinite v"
  by (cases v) simp_all

lemma isfinite_sum_list: "isfinite (sum_list xs) \<Longrightarrow> x \<in> set xs \<Longrightarrow> isfinite x"
  by (induction xs) (auto dest: isfinite_plus)

lemma std1_finite:
  assumes "isfinite (std1 ddof xs)"
  shows "ddof < length xs" and "\<And>x. x \<in> set xs \<Longrightarrow> isfinite x"
proof -
  let ?m = "mean1 xs"
  have q: "isfinite (sum_list (map (\<lambda>v. (v - ?m) * (v - ?m)) xs) / Num (real (length xs - ddof)))"
    using assms by (auto simp: std1_def var1_def Let_def dest: isfinite_sqrt)
  from isfinite_divide [OF q] have s: "isfinite (sum_list (map (\<lambda>v. (v - ?m) * (v - ?m)) xs))"
    and d: "Num (real (length xs - ddof)) \<noteq> 0"
    by simp_all
  from d show "ddof < length xs"
    by (cases "ddof < length xs") (simp_all add: zero_exact_float_def)
  fix x assume "x \<in> set xs"
  then have "(x - ?m) * (x - ?m) \<in> set (map (\<lambda>v. (v - ?m) * (v - ?m)) xs)"
    by simp
  from isfinite_sum_list [OF s this] show "isfinite x"
    by (auto dest: isfinite_times isfinite_minus)
qed

lemma std_axis0_nth:
  "j < shape1 A \<Longrightarrow> std_axis0 A ddof ! j = std1 ddof (col A j)"
  by (simp add: std_axis0_def)

lemma nonzero_std_nth:
  assumes "list_all nonzero_number (std_axis0 A ddof)" and "j < shape1 A"
  shows "isfinite (std1 ddof (col A j))" and "std1 ddof (col A j) \<noteq> 0"
proof -
  have "std_axis0 A ddof ! j \<in> set (std_axis0 A ddof)"
    using assms(2) by (simp add: std_axis0_def)
  then have "nonzero_number (std_axis0 A ddof ! j)"
    using assms(1) by (simp add: list_all_iff)
  then show "isfinite (std1 ddof (col A j))" and "std1 ddof (col A j) \<noteq> 0"
    using assms(2) by (simp_all add: std_axis0_nth nonzero_number_def)
qed

lemma nonzero_std_all_finite:
  assumes "well_shaped A" and "list_all nonzero_number (std_axis0 A ddof)"
  shows "all_finite A"
proof -
  have "isfinite v" if r: "r \<in> set (rows A)" and v: "v \<in> set r" for r v
  proof -
    obtain i where i: "i < shape0 A" "r = rows A ! i"
      using r assms(1) by (auto simp: well_shaped_def in_set_conv_nth)
    have len: "length r = shape1 A"
      using r assms(1) by (auto simp: well_shaped_def list_all_iff)
    obtain j where j: "j < shape1 A" "v = r ! j"
      using v len by (auto simp: in_set_conv_nth)
    have "v \<in> set (col A j)"
      using i j by (auto simp: col_def entry_def)
    with std1_finite(2) [OF nonzero_std_nth(1) [OF assms(2) j(1)]] show ?thesis .
  qed
  then show ?thesis
    by (auto simp: all_finite_def list_all_iff)
qed

lemma nonzero_std_rows:
  assumes "list_all nonzero_number (std_axis0 A ddof)" and "0 < shape1 A"
  shows "ddof < shape0 A"
  using std1_finite(1) [OF nonzero_std_nth(1) [OF assms]] by (simp add: col_def)

lemma std1_Num:
  assumes "ddof < n"
  shows "std1 ddof (map (\<lambda>i. Num (g i)) [0..<n]) = Num (sqrt (var_formula ddof n g))"
  by (simp add: std1_def var1_Num [OF assms] var_formula_nonneg not_less)

lemma std_axis0_Num:
  assumes "ddof < n"
  shows "std_axis0 (mk n p (\<lambda>i j. Num (a i j))) ddof
         = map (\<lambda>j. Num (sqrt (var_formula ddof n (\<lambda>i. a i j)))) [0..<p]"
  by (simp add: std_axis0_def std1_Num [OF assms])

lemma Z_Num:
  assumes "2 \<le> n" and "\<And>j. j < p \<Longrightarrow> var_formula 1 n (\<lambda>i. a i j) \<noteq> 0"
  shows "Z (mk n p (\<lambda>i j. Num (a i j))) = mk n p (\<lambda>i j. Num (z_formula n (\<lambda>i. a i j) i))"
proof -
  have n: "0 < n" "1 < n" using assms(1) by simp_all
  have "(entry (mk n p (\<lambda>i j. Num (a i j))) i j - mean_axis0 (mk n p (\<lambda>i j. Num (a i j))) ! j)
          / std_axis0 (mk n p (\<lambda>i j. Num (a i j))) 1 ! j
        = Num (z_formula n (\<lambda>i. a i j) i)" if "i < n" "j < p" for i j
    using that assms(2) [OF that(2)] std_axis0_Num [OF n(2), of p a]
    by (simp add: mean_axis0_Num [OF n(1)] z_formula_def)
  then show ?thesis
    unfolding Z_def shape0_mk shape1_mk by (rule mk_cong)
qed

lemma map_const_upt: "map (\<lambda>j. c) [0..<p] = replicate p c"
  by (simp add: map_replicate_const)

lemma shape1_zero_axis0:
  assumes "shape1 M = 0"
  shows "mean_axis0 M = []" and "var_axis0 M ddof = []" and "std_axis0 M ddof = []"
  using assms by (simp_all add: mean_axis0_def var_axis0_def std_axis0_def)

lemma nonzero_std_var:
  assumes "1 < n" and "j < p"
    and "list_all nonzero_number (std_axis0 (mk n p (\<lambda>i j. Num (a i j))) 1)"
  shows "var_formula 1 n (\<lambda>i. a i j) \<noteq> 0"
proof -
  have "std1 1 (col (mk n p (\<lambda>i j. Num (a i j))) j) \<noteq> 0"
    using nonzero_std_nth(2) [OF assms(3)] assms(2) by simp
  then have "Num (sqrt (var_formula 1 n (\<lambda>i. a i j))) \<noteq> 0"
    using std1_Num [OF assms(1), of "\<lambda>i. a i j"] assms(2) by simp
  then show ?thesis
    by (auto simp: zero_exact_float_def)
qed

lemma standardized_Num:
  assumes "2 \<le> n" and "\<And>j. j < p \<Longrightarrow> var_formula 1 n (\<lambda>i. a i j) \<noteq> 0"
  shows "mean_axis0 (Z (mk n p (\<lambda>i j. Num (a i j)))) = replicate p 0"
    and "var_axis0 (Z (mk n p (\<lambda>i j. Num (a i j)))) 1 = replicate p 1"
    and "std_axis0 (Z (mk n p (\<lambda>i j. Num (a i j)))) 1 = replicate p 1"
proof -
  have n: "0 < n" "1 < n" using assms(1) by simp_all
  let ?z = "\<lambda>i j. z_formula n (\<lambda>i. a i j) i"
  have Z: "Z (mk n p (\<lambda>i j. Num (a i j))) = mk n p (\<lambda>i j. Num (?z i j))"
    by (rule Z_Num [OF assms])
  show "mean_axis0 (Z (mk n p (\<lambda>i j. Num (a i j)))) = replicate p 0"
    unfolding Z mean_axis0_Num [OF n(1)]
    by (simp add: mean_z_formula map_const_upt zero_exact_float_def)
  have v: "map (\<lambda>j. Num (var_formula 1 n (\<lambda>i. ?z i j))) [0..<p] = map (\<lambda>j. Num 1) [0..<p]"
    by (rule map_cong) (simp_all add: var_z_formula [OF assms(1) assms(2)] del: One_nat_def)
  show "var_axis0 (Z (mk n p (\<lambda>i j. Num (a i j)))) 1 = replicate p 1"
    unfolding Z var_axis0_Num [OF n(2)] v
    by (simp add: map_const_upt one_exact_float_def)
  have s: "map (\<lambda>j. Num (sqrt (var_formula 1 n (\<lambda>i. ?z i j)))) [0..<p] = map (\<lambda>j. Num 1) [0..<p]"
    by (rule map_cong) (simp_all add: var_z_formula [OF assms(1) assms(2)] del: One_nat_def)
  show "std_axis0 (Z (mk n p (\<lambda>i j. Num (a i j)))) 1 = replicate p 1"
    unfolding Z std_axis0_Num [OF n(2)] s
    by (simp add: map_const_upt one_exact_float_def)
qed

lemma centered_Num:
  assumes "0 < n"
  shows "mean_axis0 (A0 (mk n p (\<lambda>i j. Num (a i j)))) = replicate p 0"
  unfolding A0_Num [OF assms] mean_axis0_Num [OF assms]
  by (simp add: mean_formula_centered [OF assms] map_const_upt zero_exact_float_def)

lemma A_example_hyps:
  "well_shaped A_example" "2 \<le> shape0 A_example" "list_all nonzero_number (std_axis0 A_example 1)"
  by (simp_all add: std_axis0_def std1_def var1_def mean1_def col_def entry_def A_example_def
      nonzero_number_def zero_exact_float_def well_shaped_def upt_rec)

lemma abs_le_oneD: "\<bar>x\<bar> \<le> 1 \<Longrightarrow> - 1 \<le> x \<and> x \<le> 1" for x :: real
  by linarith

lemma R_Num:
  assumes "2 \<le> n" and "\<And>j. j < p \<Longrightarrow> var_formula 1 n (\<lambda>i. a i j) \<noteq> 0"
  shows "R (mk n p (\<lambda>i j. Num (a i j)))
         = Inr (mk p p (\<lambda>j k. Num ((\<Sum>i<n. z_formula n (\<lambda>i. a i j) i * z_formula n (\<lambda>i. a i k) i)
                                    / real (n - 1))))"
  using scaled_gram_Num [OF assms(1), of p "\<lambda>i j. z_formula n (\<lambda>i. a i j) i"]
  by (simp only: R_def Z_Num [OF assms])






section \<open>Rank deficiency\<close>

lemma shape_swap_rows [simp]:
  "shape0 (swap_rows k i M) = shape0 M" "shape1 (swap_rows k i M) = shape1 M"
  by (simp_all add: swap_rows_def)

lemma shape_eliminate [simp]:
  "shape0 (eliminate k c M) = shape0 M" "shape1 (eliminate k c M) = shape1 M"
  by (simp_all add: eliminate_def)

lemma entry_swap_rows:
  "r < shape0 M \<Longrightarrow> j < shape1 M \<Longrightarrow>
   entry (swap_rows k i M) r j = entry M (if r = k then i else if r = i then k else r) j"
  by (simp add: swap_rows_def)

lemma entry_eliminate:
  "r < shape0 M \<Longrightarrow> j < shape1 M \<Longrightarrow>
   entry (eliminate k c M) r j =
     (if r = k then entry M k j / entry M k c
      else entry M r j - entry M r c * (entry M k j / entry M k c))"
  by (simp add: eliminate_def)

lemma annihilates_swap_rows:
  assumes "annihilates M x" and "k < shape0 M" and "i < shape0 M"
  shows "annihilates (swap_rows k i M) x"
  using assms by (auto simp: annihilates_def entry_swap_rows)

lemma annihilates_eliminate:
  assumes "annihilates M x" and "k < shape0 M"
  shows "annihilates (eliminate k c M) x"
proof -
  have row: "(\<Sum>j < shape1 M. entry M r j * x j) = 0" if "r < shape0 M" for r
    using assms(1) that by (simp add: annihilates_def)
  have "(\<Sum>j < shape1 M. entry (eliminate k c M) r j * x j) = 0" if r: "r < shape0 M" for r
  proof (cases "r = k")
    case True
    have "(\<Sum>j < shape1 M. entry (eliminate k c M) r j * x j)
        = (\<Sum>j < shape1 M. entry M k j * x j) / entry M k c"
      using r True by (simp add: entry_eliminate sum_divide_distrib)
    then show ?thesis
      by (simp add: row [OF assms(2)])
  next
    case False
    have "(\<Sum>j < shape1 M. entry (eliminate k c M) r j * x j)
        = (\<Sum>j < shape1 M. entry M r j * x j)
          - entry M r c / entry M k c * (\<Sum>j < shape1 M. entry M k j * x j)"
      using r False by (simp add: entry_eliminate sum_subtractf sum_distrib_left algebra_simps)
    then show ?thesis
      by (simp add: row [OF assms(2)] row [OF r])
  qed
  then show ?thesis
    by (simp add: annihilates_def)
qed

lemma pivots_ok_step:
  assumes ok: "pivots_ok M piv" and k: "k = length piv" and i: "k \<le> i" "i < shape0 M"
    and c: "c < shape1 M" and nz: "entry M i c \<noteq> 0"
  shows "pivots_ok (eliminate k c (swap_rows k i M)) (piv @ [c])"
proof -
  let ?M1 = "swap_rows k i M" and ?M2 = "eliminate k c (swap_rows k i M)"
  have kn: "k < shape0 M" using i by simp
  have d: "entry ?M1 k c = entry M i c"
    using kn c by (simp add: entry_swap_rows)
  have old: "piv ! t < shape1 M" "entry M t (piv ! t) = 1"
    "\<And>r. r < shape0 M \<Longrightarrow> r \<noteq> t \<Longrightarrow> entry M r (piv ! t) = 0" if "t < k" for t
    using ok that k by (auto simp: pivots_ok_def)
  have zero_k: "entry ?M1 k (piv ! t) = 0" if "t < k" for t
    using that old(1) [OF that] old(3) [OF that, of i] i kn by (simp add: entry_swap_rows)
  have keep: "entry ?M1 r (piv ! t) = entry M r (piv ! t)" if "t < k" "r < shape0 M" for t r
  proof (cases "r = k \<or> r = i")
    case True
    then show ?thesis
      using that old(1) [OF that(1)] old(3) [OF that(1), of i] old(3) [OF that(1), of k] i kn
      by (auto simp: entry_swap_rows)
  next
    case False
    then show ?thesis
      using that old(1) [OF that(1)] by (simp add: entry_swap_rows)
  qed
  have "piv' ! t < shape1 ?M2 \<and> entry ?M2 t (piv' ! t) = 1 \<and>
        (\<forall>r < shape0 ?M2. r \<noteq> t \<longrightarrow> entry ?M2 r (piv' ! t) = 0)"
    if t: "t < length piv'" and piv': "piv' = piv @ [c]" for t piv'
  proof (cases "t < k")
    case True
    then have q: "piv' ! t = piv ! t"
      by (simp add: piv' k nth_append)
    have tn: "t < shape0 M" using True kn by simp
    have "entry ?M2 t (piv ! t) = 1"
      using True tn old(1) [OF True] zero_k [OF True] keep [OF True tn] old(2) [OF True]
      by (simp add: entry_eliminate)
    moreover have "entry ?M2 r (piv ! t) = 0" if "r < shape0 M" "r \<noteq> t" for r
      using that True old(1) [OF True] zero_k [OF True] keep [OF True that(1)] old(3) [OF True that]
      by (simp add: entry_eliminate)
    ultimately show ?thesis
      using old(1) [OF True] by (simp add: q)
  next
    case False
    then have tk: "t = k" using t by (simp add: piv' k)
    then have q: "piv' ! t = c"
      by (simp add: piv' k)
    have "entry ?M2 k c = 1"
      using kn c nz by (simp add: entry_eliminate d)
    moreover have "entry ?M2 r c = 0" if "r < shape0 M" "r \<noteq> k" for r
      using that c nz by (simp add: entry_eliminate d)
    ultimately show ?thesis
      unfolding q using c tk by simp
  qed
  then show ?thesis
    using kn by (simp add: pivots_ok_def k)
qed

lemma row_reduce_invariant:
  assumes "pivots_ok M piv" and "annihilates M x" and "distinct (piv @ cols)"
    and "\<forall>c \<in> set cols. c < shape1 M"
    and "row_reduce cols (length piv) M piv = (M', piv')"
  shows "pivots_ok M' piv' \<and> annihilates M' x \<and> distinct piv' \<and> shape1 M' = shape1 M"
  using assms
proof (induction cols arbitrary: M piv)
  case Nil
  then show ?case by simp
next
  case (Cons c cols)
  show ?case
  proof (cases "find (\<lambda>i. entry M i c \<noteq> 0) [length piv..<shape0 M]")
    case None
    then have "row_reduce cols (length piv) M piv = (M', piv')"
      using Cons.prems(5) by simp
    moreover have "distinct (piv @ cols)" "\<forall>c \<in> set cols. c < shape1 M"
      using Cons.prems(3,4) by simp_all
    ultimately show ?thesis
      using Cons.IH [OF Cons.prems(1,2)] by blast
  next
    case (Some i)
    then have i: "length piv \<le> i" "i < shape0 M" and nz: "entry M i c \<noteq> 0"
      by (auto simp: find_Some_iff)
    let ?M2 = "eliminate (length piv) c (swap_rows (length piv) i M)"
    have c: "c < shape1 M" using Cons.prems(4) by simp
    have kn: "length piv < shape0 M" using i by simp
    have ok: "pivots_ok ?M2 (piv @ [c])"
      by (rule pivots_ok_step [OF Cons.prems(1) refl i c nz])
    have ann: "annihilates ?M2 x"
      by (intro annihilates_eliminate annihilates_swap_rows Cons.prems(2) kn i(2)) (simp add: kn)
    have dist: "distinct ((piv @ [c]) @ cols)"
      using Cons.prems(3) by simp
    have cols: "\<forall>c \<in> set cols. c < shape1 ?M2"
      using Cons.prems(4) by simp
    have run: "row_reduce cols (length (piv @ [c])) ?M2 (piv @ [c]) = (M', piv')"
      using Cons.prems(5) Some by simp
    show ?thesis
      using Cons.IH [OF ok ann dist cols run] by simp
  qed
qed

lemma all_pivots_trivial_kernel:
  assumes ok: "pivots_ok M piv" and dist: "distinct piv" and ann: "annihilates M x"
    and full: "length piv = shape1 M" and j: "j < shape1 M"
  shows "x j = 0"
proof -
  let ?p = "shape1 M"
  have sub: "set piv \<subseteq> {..<?p}"
    using ok full by (auto simp: pivots_ok_def in_set_conv_nth)
  have "card (set piv) = ?p"
    using dist full by (simp add: distinct_card)
  then have all: "set piv = {..<?p}"
    using sub by (simp add: card_subset_eq)
  have "j \<in> set piv"
    using j all by simp
  then obtain t where t: "t < length piv" "piv ! t = j"
    by (auto simp: in_set_conv_nth)
  have tn: "t < shape0 M"
    using t(1) ok by (simp add: pivots_ok_def)
  have one: "entry M t j = 1"
    using ok t by (auto simp: pivots_ok_def)
  have zero: "entry M t j' = 0" if "j' < ?p" "j' \<noteq> j" for j'
  proof -
    have "j' \<in> set piv"
      using that(1) all by simp
    then obtain u where u: "u < length piv" "piv ! u = j'"
      by (auto simp: in_set_conv_nth)
    then have "u \<noteq> t" using t(2) that(2) by auto
    then show ?thesis
      using ok u tn by (auto simp: pivots_ok_def)
  qed
  have "(\<Sum>j' < ?p. entry M t j' * x j') = (\<Sum>j' < ?p. if j' = j then x j else 0)"
    by (rule sum.cong) (auto simp: one zero)
  also have "\<dots> = x j"
    using j by simp
  finally show ?thesis
    using ann tn by (simp add: annihilates_def)
qed

lemma rref_fewer_pivots:
  assumes "annihilates M x" and "j < shape1 M" and "x j \<noteq> 0"
  shows "length (snd (rref M)) < shape1 M"
proof -
  obtain M' piv' where run: "row_reduce [0..<shape1 M] (length ([]::nat list)) M [] = (M', piv')"
    by (cases "row_reduce [0..<shape1 M] 0 M []") simp
  have start: "pivots_ok M []" "distinct ([] @ [0..<shape1 M])" "\<forall>c \<in> set [0..<shape1 M]. c < shape1 M"
    by (simp_all add: pivots_ok_def)
  have inv: "pivots_ok M' piv'" "annihilates M' x" "distinct piv'" "shape1 M' = shape1 M"
    using row_reduce_invariant [OF start(1) assms(1) start(2,3) run] by simp_all
  have "set piv' \<subseteq> {..<shape1 M}"
    using inv(1,4) by (auto simp: pivots_ok_def in_set_conv_nth)
  then have "card (set piv') \<le> card {..<shape1 M}"
    by (intro card_mono) simp_all
  then have le: "length piv' \<le> shape1 M"
    using inv(3) by (simp add: distinct_card)
  have "length piv' \<noteq> shape1 M"
  proof
    assume "length piv' = shape1 M"
    then have "x j = 0"
      using all_pivots_trivial_kernel [OF inv(1,3,2)] assms(2) inv(4) by simp
    then show False using assms(3) by simp
  qed
  with le have "length piv' < shape1 M" by simp
  moreover have "snd (rref M) = piv'"
    using run by (simp add: rref_def)
  ultimately show ?thesis by simp
qed

lemma entry_sympy_Matrix:
  assumes "well_shaped A" and "i < shape0 A" and "j < shape1 A"
  shows "entry (sympy_Matrix A) i j = num (entry A i j)"
proof -
  have "length (rows A) = shape0 A" "length (rows A ! i) = shape1 A"
    using assms(1,2) by (auto simp: well_shaped_def list_all_iff)
  then show ?thesis
    using assms(2,3) by (simp add: sympy_Matrix_def map_array_def entry_def)
qed

lemma dependent_rank:
  assumes "well_shaped A" and "columns_dependent A"
  shows "matrix_rank A < shape1 A"
proof -
  obtain x j where j: "j < shape1 A" "x j \<noteq> 0"
    and x: "\<And>i. i < shape0 A \<Longrightarrow> (\<Sum>j < shape1 A. num (entry A i j) * x j) = 0"
    using assms(2) by (auto simp: columns_dependent_def)
  have sh: "shape0 (sympy_Matrix A) = shape0 A" "shape1 (sympy_Matrix A) = shape1 A"
    by (simp_all add: sympy_Matrix_def map_array_def)
  have "annihilates (sympy_Matrix A) x"
    unfolding annihilates_def sh
  proof (intro allI impI)
    fix i assume i: "i < shape0 A"
    have "(\<Sum>j < shape1 A. entry (sympy_Matrix A) i j * x j)
        = (\<Sum>j < shape1 A. num (entry A i j) * x j)"
      by (rule sum.cong) (simp_all add: entry_sympy_Matrix [OF assms(1) i])
    then show "(\<Sum>j < shape1 A. entry (sympy_Matrix A) i j * x j) = 0"
      by (simp add: x [OF i])
  qed
  from rref_fewer_pivots [OF this, of j] j show ?thesis
    by (simp add: matrix_rank_def sh)
qed

lemma multiples_dependent:
  assumes "1 < shape1 A" and "columns_multiples A"
  shows "columns_dependent A"
proof -
  obtain v s where vs: "\<And>i j. i < shape0 A \<Longrightarrow> j < shape1 A \<Longrightarrow> num (entry A i j) = s j * v i"
    using assms(2) by (auto simp: columns_multiples_def)
  define x where "x = (\<lambda>j::nat. if s 0 = 0 then (if j = 0 then 1 else 0)
                          else (if j = 0 then s 1 else if j = 1 then - s 0 else (0::real)))"
  have nz: "\<exists>j < shape1 A. x j \<noteq> 0"
  proof (cases "s 0 = 0")
    case True
    then have "x 0 \<noteq> 0" by (simp add: x_def)
    then show ?thesis using assms(1) by (intro exI [of _ 0]) simp
  next
    case False
    then have "x 1 \<noteq> 0" by (simp add: x_def)
    then show ?thesis using assms(1) by (intro exI [of _ 1]) simp
  qed
  have "(\<Sum>j < shape1 A. num (entry A i j) * x j) = 0" if i: "i < shape0 A" for i
  proof -
    have "(\<Sum>j < shape1 A. num (entry A i j) * x j) = (\<Sum>j < shape1 A. s j * v i * x j)"
      by (rule sum.cong) (simp_all add: vs [OF i])
    also have "\<dots> = (\<Sum>j \<in> {0, 1}. s j * v i * x j)"
      using assms(1) by (intro sum.mono_neutral_right) (auto simp: x_def)
    also have "\<dots> = 0"
      by (simp add: x_def)
    finally show ?thesis .
  qed
  with nz show ?thesis
    unfolding columns_dependent_def by blast
qed

lemma A_example_multiples: "columns_multiples A_example"
  unfolding columns_multiples_def
proof (intro exI conjI allI impI)
  let ?v = "\<lambda>i::nat. [2, - 1, 6, - 3 :: real] ! i" and ?s = "\<lambda>j::nat. [2, - 1, 6 :: real] ! j"
  show "0 < shape0 A_example" by (simp add: A_example_def)
  show "?v 0 \<noteq> 0" by simp
  fix i j assume "i < shape0 A_example" "j < shape1 A_example"
  then have "i \<in> {0, 1, 2, 3}" "j \<in> {0, 1, 2}"
    by (auto simp: A_example_def)
  then show "num (entry A_example i j) = ?s j * ?v i"
    by (auto simp: A_example_def entry_def)
qed

text \<open>
  The notebook's output of \<^verbatim>\<open>sympy.Matrix(A).T.rref()\<close>:
  \<^verbatim>\<open>Matrix([[1, -1/2, 3, -3/2], [0, 0, 0, 0], [0, 0, 0, 0]])\<close> and \<^verbatim>\<open>(0,)\<close>.
\<close>

lemma rref_example:
  "rref (T (sympy_Matrix A_example))
   = (\<lparr>shape0 = 3, shape1 = 4, rows = [[1, - 1/2, 3, - 3/2], [0, 0, 0, 0], [0, 0, 0, 0]]\<rparr>, [0])"
  by (simp add: rref_def sympy_Matrix_def A_example_def map_array_def T_def mk_def entry_def
      eliminate_def swap_rows_def upt_rec)



section \<open>The notebooks' printed results\<close>

text \<open>
  The model reproduces what the notebooks print for their example data: the column means
  \<^verbatim>\<open>[ 2. -1.  6.]\<close>, the centred matrix, the covariance matrix with
  \<^verbatim>\<open>61.33333333 = 184/3\<close>, \<^verbatim>\<open>-30.66666667 = -92/3\<close> and \<^verbatim>\<open>15.33333333 = 46/3\<close>
  (from the matrix product and from \<open>np.cov\<close>), the column variances, the outer and the
  inner product of the row vector, and the variance \<^verbatim>\<open>3.5\<close> and the NaN-skipping mean
  \<^verbatim>\<open>3.4\<close> of part 1.
\<close>

lemma A_bar_example: "mean_axis0 A_example = [Num 2, Num (- 1), Num 6]"
  by (simp add: mean_axis0_def mean1_def col_def entry_def A_example_def upt_rec)

lemma A0_example:
  "A0 A_example = \<lparr>shape0 = 4, shape1 = 3,
     rows = [[Num 2, Num (- 1), Num 6], [Num (- 4), Num 2, Num (- 12)],
             [Num 10, Num (- 5), Num 30], [Num (- 8), Num 4, Num (- 24)]]\<rparr>"
  unfolding A0_def A_bar_example by (simp add: mk_def entry_def A_example_def upt_rec)

lemma cov_matmul_example:
  "cov_matmul A_example = Inr \<lparr>shape0 = 3, shape1 = 3,
     rows = [[Num (184 / 3), Num (- 92 / 3), Num 184], [Num (- 92 / 3), Num (46 / 3), Num (- 92)],
             [Num 184, Num (- 92), Num 552]]\<rparr>"
  unfolding cov_matmul_def A0_example
  by (simp add: scaled_gram_def np_dot_def T_def mk_def entry_def map_array_def upt_rec)

lemma var_example: "var_axis0 A_example 1 = [Num (184 / 3), Num (46 / 3), Num 552]"
  by (simp add: var_axis0_def var1_def mean1_def col_def entry_def A_example_def upt_rec)

lemma B_example:
  "B A_row = Inr \<lparr>shape0 = 4, shape1 = 4,
     rows = [[4, - 2, 12, 6], [- 2, 1, - 6, - 3], [12, - 6, 36, 18], [6, - 3, 18, 9]]\<rparr>"
  by (simp add: B_def np_dot_def T_def mk_def A_row_def entry_def upt_rec)

lemma inner_example: "inner A_row = Inr \<lparr>shape0 = 1, shape1 = 1, rows = [[50]]\<rparr>"
  by (simp add: inner_def np_dot_def T_def mk_def A_row_def entry_def upt_rec)

lemma x_var_example: "x_var x_example = Inr \<lparr>shape0 = 1, shape1 = 1, rows = [[Num (7 / 2)]]\<rparr>"
  by (simp add: x_var_def xi_def np_mean_def mean1_def ravel_def np_dot_def T_def mk_def
      map_array_def entry_def np_size_def x_example_def upt_rec)

lemma np_var_example: "np_var x_example 1 = Num (7 / 2)" "np_var x_example 0 = Num (35 / 12)"
  by (simp_all add: np_var_def var1_def mean1_def x_example_def ravel_def)

lemma nanmean_example: "np_nanmean y_example = Num (17 / 5)" "mean_valid y_example = Inr (Num (17 / 5))"
  by (simp_all add: np_nanmean_def mean_valid_def getitem_mask_def valid_def invert_def
      np_isnan_def map_array_def mean1_def y_example_def ravel_def isnan_def zero_exact_float_def)


lemma C_example:
  "C A_example = Inr (Arr2 \<lparr>shape0 = 3, shape1 = 3,
     rows = [[Num (184 / 3), Num (- 92 / 3), Num 184], [Num (- 92 / 3), Num (46 / 3), Num (- 92)],
             [Num 184, Num (- 92), Num 552]]\<rparr>)"
  "cov_centered A_example = C A_example"
proof -
  have h: "well_shaped A_example" "all_finite A_example" "2 \<le> shape0 A_example"
    by (simp_all add: A_example_def well_shaped_def all_finite_def)
  let ?M = "mk (shape1 A_example) (shape1 A_example)
     (\<lambda>j k. Num (cov_formula 1 (shape0 A_example) (\<lambda>i. num (entry A_example i j))
                                                      (\<lambda>i. num (entry A_example i k))))"
  have M: "?M = \<lparr>shape0 = 3, shape1 = 3,
     rows = [[Num (184 / 3), Num (- 92 / 3), Num 184], [Num (- 92 / 3), Num (46 / 3), Num (- 92)],
             [Num 184, Num (- 92), Num 552]]\<rparr>"
    using cov_matmul_real [OF h] by (simp add: cov_matmul_example)
  have "squeeze ?M = Arr2 ?M"
    by (simp add: squeeze_square A_example_def)
  then show "C A_example = Inr (Arr2 \<lparr>shape0 = 3, shape1 = 3,
     rows = [[Num (184 / 3), Num (- 92 / 3), Num 184], [Num (- 92 / 3), Num (46 / 3), Num (- 92)],
             [Num 184, Num (- 92), Num 552]]\<rparr>)"
    using C_real [OF h] by (simp only: M)
  show "cov_centered A_example = C A_example"
    by (simp only: C_real [OF h] cov_centered_real [OF h])
qed

end
